theory Spec2Isabelle
  imports Complex_Main
begin

section \<open>Values carried by operations\<close>

text \<open>
  Candidate operations reach the server as JSON payloads of the \<^verbatim>\<open>draw:commit\<close> event and
  are stamped with \<^verbatim>\<open>id\<close>, \<^verbatim>\<open>userId\<close> and \<^verbatim>\<open>timestamp\<close>. A value is therefore what
  \<^verbatim>\<open>JSON.parse\<close> can produce, plus \<^verbatim>\<open>undefined\<close> for an absent property. A number is a
  finite double (read as a real; \<^verbatim>\<open>-0\<close> is identified with \<^verbatim>\<open>0\<close>, from which no
  comparison used here tells it apart) or an infinity (an overflowing literal parses to one).
  \<^verbatim>\<open>NaN\<close> has no JSON encoding and is not part of the payload model; on every other number
  \<^verbatim>\<open>!(n <= 0)\<close> and \<^verbatim>\<open>n > 0\<close> agree.
\<close>

datatype jsnum = NegInf | Fin real | PosInf

datatype jsval =
    JUndefined
  | JNull
  | JBool bool
  | JNum jsnum
  | JStr string
  | JArr "jsval list"
  | JObj "(string \<times> jsval) list"

datatype error = Error string

text \<open>\<^verbatim>\<open>n > 0\<close> and \<^verbatim>\<open>n <= 0\<close> on numbers.\<close>

fun gt0 :: "jsnum \<Rightarrow> bool" where
  "gt0 NegInf = False"
| "gt0 (Fin r) = (r > 0)"
| "gt0 PosInf = True"

fun le0 :: "jsnum \<Rightarrow> bool" where
  "le0 NegInf = True"
| "le0 (Fin r) = (r \<le> 0)"
| "le0 PosInf = False"

text \<open>JavaScript truthiness: \<^verbatim>\<open>!v\<close> is \<open>\<not> truthy v\<close>.\<close>

fun truthy :: "jsval \<Rightarrow> bool" where
  "truthy JUndefined = False"
| "truthy JNull = False"
| "truthy (JBool b) = b"
| "truthy (JNum n) = (n \<noteq> Fin 0)"
| "truthy (JStr s) = (s \<noteq> [])"
| "truthy (JArr xs) = True"
| "truthy (JObj kvs) = True"

text \<open>
  Property read \<^verbatim>\<open>v.k\<close> for the property names the server reads (\<^verbatim>\<open>type\<close>, \<^verbatim>\<open>points\<close>,
  \<^verbatim>\<open>size\<close>, \<^verbatim>\<open>color\<close>, \<^verbatim>\<open>composite\<close>, \<^verbatim>\<open>shape\<close>, \<^verbatim>\<open>x\<close>, \<^verbatim>\<open>y\<close>, \<^verbatim>\<open>width\<close>,
  \<^verbatim>\<open>height\<close>, \<^verbatim>\<open>targetId\<close>, \<^verbatim>\<open>userId\<close>): an object yields the stored value or
  \<^verbatim>\<open>undefined\<close>; primitives and arrays have none of these properties. An object is
  represented by a list of bindings, the first binding of a key being its value.
\<close>

fun get_prop :: "jsval \<Rightarrow> string \<Rightarrow> jsval" where
  "get_prop (JObj kvs) k = (case map_of kvs k of Some v \<Rightarrow> v | None \<Rightarrow> JUndefined)"
| "get_prop _ k = JUndefined"

text \<open>\<^verbatim>\<open>typeof v\<close>.\<close>

fun typeof :: "jsval \<Rightarrow> string" where
  "typeof JUndefined = ''undefined''"
| "typeof JNull = ''object''"
| "typeof (JBool b) = ''boolean''"
| "typeof (JNum n) = ''number''"
| "typeof (JStr s) = ''string''"
| "typeof (JArr xs) = ''object''"
| "typeof (JObj kvs) = ''object''"

text \<open>\<^verbatim>\<open>!Array.isArray(v) || v.length < 2\<close>\<close>

fun fewer_than_two_points :: "jsval \<Rightarrow> bool" where
  "fewer_than_two_points (JArr ps) = (length ps < 2)"
| "fewer_than_two_points _ = True"

text \<open>\<^verbatim>\<open>typeof v !== "number" || v <= 0\<close>\<close>

fun not_number_or_le0 :: "jsval \<Rightarrow> bool" where
  "not_number_or_le0 (JNum n) = le0 n"
| "not_number_or_le0 _ = True"

text \<open>\<^verbatim>\<open>typeof v === "number" && v > 0\<close>\<close>

fun number_gt0 :: "jsval \<Rightarrow> bool" where
  "number_gt0 (JNum n) = gt0 n"
| "number_gt0 _ = False"

text \<open>\<^verbatim>\<open>typeof v !== "string" || v.length === 0\<close>\<close>

fun not_string_or_empty :: "jsval \<Rightarrow> bool" where
  "not_string_or_empty (JStr s) = (length s = 0)"
| "not_string_or_empty _ = True"

section \<open>The validator\<close>

text \<open>
  \<^verbatim>\<open>validateOperation(op)\<close> of \<^verbatim>\<open>drawing-state.js\<close>: \<open>Inl (Error m)\<close> is
  \<^verbatim>\<open>throw new Error(m)\<close>, \<open>Inr ()\<close> is a normal return. The branches and their order are
  those of the source.
\<close>

definition validateOperation :: "jsval \<Rightarrow> error + unit" where
  "validateOperation op =
    (if \<not> truthy op then Inl (Error ''Empty operation'')
     else if get_prop op ''type'' = JStr ''stroke'' then
       (if fewer_than_two_points (get_prop op ''points'')
          then Inl (Error ''Stroke must contain at least two points'')
        else if not_number_or_le0 (get_prop op ''size'')
          then Inl (Error ''Invalid stroke size'')
        else if typeof (get_prop op ''color'') \<noteq> ''string''
          then Inl (Error ''Invalid color'')
        else if get_prop op ''composite'' \<noteq> JStr ''source-over''
                \<and> get_prop op ''composite'' \<noteq> JStr ''destination-out''
          then Inl (Error ''Invalid composite mode'')
        else Inr ())
     else if get_prop op ''type'' = JStr ''shape'' then
       (let allowed = {JStr ''circle'', JStr ''square'', JStr ''triangle''} in
        if get_prop op ''shape'' \<notin> allowed
          then Inl (Error ''Invalid shape type'')
        else if typeof (get_prop op ''x'') \<noteq> ''number'' \<or> typeof (get_prop op ''y'') \<noteq> ''number''
          then Inl (Error ''Invalid shape position'')
        else
          (let hasLegacySize = number_gt0 (get_prop op ''size'');
               hasWH = (number_gt0 (get_prop op ''width'') \<and> number_gt0 (get_prop op ''height''))
           in if \<not> hasLegacySize \<and> \<not> hasWH
                then Inl (Error ''Invalid shape dimensions'')
              else if typeof (get_prop op ''color'') \<noteq> ''string''
                then Inl (Error ''Invalid color'')
              else Inr ()))
     else if get_prop op ''type'' = JStr ''shape:update'' then
       (if not_string_or_empty (get_prop op ''targetId'')
          then Inl (Error ''Missing targetId'')
        else
          (let hasPos = (typeof (get_prop op ''x'') = ''number'' \<and> typeof (get_prop op ''y'') = ''number'');
               hasWH = (number_gt0 (get_prop op ''width'') \<and> number_gt0 (get_prop op ''height''));
               hasColor = (typeof (get_prop op ''color'') = ''string'')
           in if \<not> hasPos \<and> \<not> hasWH \<and> \<not> hasColor
                then Inl (Error ''Empty shape update'')
              else Inr ()))
     else Inl (Error ''Unsupported operation type''))"

section \<open>The store of arrays\<close>

text \<open>
  \<^verbatim>\<open>operations\<close> and \<^verbatim>\<open>redoStack\<close> are JavaScript arrays: mutable objects held by
  reference. \<^verbatim>\<open>push\<close>, \<^verbatim>\<open>pop\<close> and \<^verbatim>\<open>length = 0\<close> change the array in place, seen through
  every reference to it; \<^verbatim>\<open>[]\<close> allocates a new one. The heap maps an address to the
  array's current content; \<open>next_addr\<close> is the first address not yet allocated.
\<close>

type_synonym addr = nat

record heap =
  cells :: "addr \<Rightarrow> jsval list"
  next_addr :: addr

text \<open>\<^verbatim>\<open>[]\<close>: a fresh, empty array.\<close>

definition new_array :: "heap \<Rightarrow> addr \<times> heap" where
  "new_array h =
     (next_addr h, h\<lparr>cells := (cells h)(next_addr h := []), next_addr := Suc (next_addr h)\<rparr>)"

text \<open>\<^verbatim>\<open>a.push(v)\<close>\<close>

definition push :: "addr \<Rightarrow> jsval \<Rightarrow> heap \<Rightarrow> heap" where
  "push a v h = h\<lparr>cells := (cells h)(a := cells h a @ [v])\<rparr>"

text \<open>\<^verbatim>\<open>a.pop()\<close> on a non-empty array: the removed last element and the heap after.\<close>

definition pop :: "addr \<Rightarrow> heap \<Rightarrow> jsval \<times> heap" where
  "pop a h = (last (cells h a), h\<lparr>cells := (cells h)(a := butlast (cells h a))\<rparr>)"

text \<open>\<^verbatim>\<open>a.length = 0\<close>\<close>

definition truncate0 :: "addr \<Rightarrow> heap \<Rightarrow> heap" where
  "truncate0 a h = h\<lparr>cells := (cells h)(a := [])\<rparr>"

section \<open>DrawingState\<close>

text \<open>
  The object's fields: two array references and the version counter. The counter is a
  JavaScript number that starts at 0 and only ever has 1 added; it is modelled as a natural
  number (the double is exact on this range for any reachable count).
\<close>

record DrawingState =
  operations :: addr
  redoStack :: addr
  version :: nat

text \<open>The constructor.\<close>

definition new_DrawingState :: "heap \<Rightarrow> DrawingState \<times> heap" where
  "new_DrawingState h =
     (let (a, h1) = new_array h;
          (b, h2) = new_array h1
      in (\<lparr>operations = a, redoStack = b, version = 0\<rparr>, h2))"

text \<open>
  Each method takes the heap and the receiver and returns its result with the heap and the
  receiver after the call. For \<open>addOperation\<close> the result \<open>Inl e\<close> is the exception thrown by
  the validator (nothing has been written then), \<open>Inr ()\<close> the normal return.
\<close>

fun addOperation :: "jsval \<Rightarrow> heap \<times> DrawingState \<Rightarrow> (error + unit) \<times> heap \<times> DrawingState" where
  "addOperation op (h, this) =
     (case validateOperation op of
        Inl e \<Rightarrow> (Inl e, h, this)
      | Inr _ \<Rightarrow>
          (let h1 = push (operations this) op h;
               h2 = truncate0 (redoStack this) h1
           in (Inr (), h2, this\<lparr>version := version this + 1\<rparr>)))"

fun undo :: "heap \<times> DrawingState \<Rightarrow> bool \<times> heap \<times> DrawingState" where
  "undo (h, this) =
     (if length (cells h (operations this)) = 0 then (False, h, this)
      else
        (let (op, h1) = pop (operations this) h;
             h2 = push (redoStack this) op h1
         in (True, h2, this\<lparr>version := version this + 1\<rparr>)))"

fun redo :: "heap \<times> DrawingState \<Rightarrow> bool \<times> heap \<times> DrawingState" where
  "redo (h, this) =
     (if length (cells h (redoStack this)) = 0 then (False, h, this)
      else
        (let (op, h1) = pop (redoStack this) h;
             h2 = push (operations this) op h1
         in (True, h2, this\<lparr>version := version this + 1\<rparr>)))"

text \<open>
  \<^verbatim>\<open>getSnapshot()\<close> builds a new object from the counter's value and the reference held in
  \<^verbatim>\<open>this.operations\<close>; the array is not copied. What a holder of the snapshot reads as its
  operations, at a later heap, is \<open>snapshot_operations\<close>.
\<close>

record snapshot =
  snap_version :: nat
  snap_operations :: addr

definition getSnapshot :: "DrawingState \<Rightarrow> snapshot" where
  "getSnapshot this = \<lparr>snap_version = version this, snap_operations = operations this\<rparr>"

definition snapshot_operations :: "heap \<Rightarrow> snapshot \<Rightarrow> jsval list" where
  "snapshot_operations h snap = cells h (snap_operations snap)"

text \<open>
  The loop of \<^verbatim>\<open>removeByUser\<close>: each operation whose \<^verbatim>\<open>userId\<close> is not strictly equal to
  the argument is pushed onto \<^verbatim>\<open>remaining\<close>. The argument is an identity's \<^verbatim>\<open>userId\<close>, a
  string; \<^verbatim>\<open>v !== s\<close> for a string \<^verbatim>\<open>s\<close> holds exactly when \<^verbatim>\<open>v\<close> is not that string.
\<close>

fun remaining_loop :: "string \<Rightarrow> jsval list \<Rightarrow> addr \<Rightarrow> heap \<Rightarrow> heap" where
  "remaining_loop userId [] remaining h = h"
| "remaining_loop userId (op # ops) remaining h =
     remaining_loop userId ops remaining
       (if get_prop op ''userId'' \<noteq> JStr userId then push remaining op h else h)"

text \<open>\<^verbatim>\<open>removeByUser\<close> returns \<^verbatim>\<open>false\<close> from its guard and a count otherwise.\<close>

datatype removed_result = ReturnFalse | ReturnCount nat

fun removeByUser :: "string \<Rightarrow> heap \<times> DrawingState \<Rightarrow> removed_result \<times> heap \<times> DrawingState" where
  "removeByUser userId (h, this) =
     (if \<not> truthy (JStr userId) then (ReturnFalse, h, this)
      else
        (let before = length (cells h (operations this));
             (remaining, h1) = new_array h;
             h2 = remaining_loop userId (cells h1 (operations this)) remaining h1;
             removed = before - length (cells h2 remaining);
             this1 = this\<lparr>operations := remaining\<rparr>;
             h3 = truncate0 (redoStack this1) h2
         in if removed > 0
              then (ReturnCount removed, h3, this1\<lparr>version := version this1 + 1\<rparr>)
              else (ReturnCount 0, h3, this1)))"

fun clearAll :: "heap \<times> DrawingState \<Rightarrow> nat \<times> heap \<times> DrawingState" where
  "clearAll (h, this) =
     (let removed = length (cells h (operations this));
          (a, h1) = new_array h;
          this1 = this\<lparr>operations := a\<rparr>;
          (b, h2) = new_array h1;
          this2 = this1\<lparr>redoStack := b\<rparr>
      in if removed > 0
           then (removed, h2, this2\<lparr>version := version this2 + 1\<rparr>)
           else (removed, h2, this2))"

section \<open>RoomManager\<close>

text \<open>
  A \<open>DrawingState\<close> is a mutable object held by reference: the room record stores the
  reference, \<^verbatim>\<open>getState\<close> hands the same reference out, and a method called through it
  changes the one object every holder sees. The registry's memory is therefore the heap of
  arrays together with a store of \<open>DrawingState\<close> objects; \<open>next_ref\<close> is the first
  reference not yet allocated. A room record holds the reference to its \<open>DrawingState\<close>
  and the \<^verbatim>\<open>users\<close> map (socket id to user, in insertion order). \<^verbatim>\<open>rooms\<close> is a \<^verbatim>\<open>Map\<close>
  keyed by room id; the server derives every room id with \<^verbatim>\<open>toString()\<close>, so keys are
  strings.
\<close>

type_synonym ref = nat

record memory =
  arrays :: heap
  states :: "ref \<Rightarrow> DrawingState option"
  next_ref :: ref

record room =
  state :: ref
  users :: "(string \<times> jsval) list"

record RoomManager =
  rooms :: "string \<Rightarrow> room option"

definition new_RoomManager :: RoomManager where
  "new_RoomManager = \<lparr>rooms = Map.empty\<rparr>"

fun ensureRoom :: "string \<Rightarrow> memory \<times> RoomManager \<Rightarrow> memory \<times> RoomManager" where
  "ensureRoom roomId (m, this) =
     (if rooms this roomId = None
        then (let (st, h1) = new_DrawingState (arrays m);
                  r = next_ref m;
                  m1 = m\<lparr>arrays := h1, states := (states m)(r \<mapsto> st), next_ref := Suc r\<rparr>
              in (m1, this\<lparr>rooms := (rooms this)(roomId \<mapsto> \<lparr>state = r, users = []\<rparr>)\<rparr>))
        else (m, this))"

text \<open>
  \<^verbatim>\<open>this.rooms.get(roomId).state\<close> throws a \<^verbatim>\<open>TypeError\<close> if \<^verbatim>\<open>get\<close> yields
  \<^verbatim>\<open>undefined\<close>; that branch is kept as an error value. The result of \<open>getState\<close> is the
  reference the room holds.
\<close>

fun getState :: "string \<Rightarrow> memory \<times> RoomManager \<Rightarrow> (error + ref) \<times> memory \<times> RoomManager" where
  "getState roomId w =
     (let (m1, this1) = ensureRoom roomId w
      in case rooms this1 roomId of
           None \<Rightarrow> (Inl (Error ''TypeError''), m1, this1)
         | Some r \<Rightarrow> (Inr (state r), m1, this1))"

fun getUsers :: "string \<Rightarrow> memory \<times> RoomManager \<Rightarrow> (error + jsval list) \<times> memory \<times> RoomManager" where
  "getUsers roomId w =
     (let (m1, this1) = ensureRoom roomId w
      in case rooms this1 roomId of
           None \<Rightarrow> (Inl (Error ''TypeError''), m1, this1)
         | Some r \<Rightarrow> (Inr (map snd (users r)), m1, this1))"

text \<open>
  A method call through a reference, as in \<^verbatim>\<open>roomManager.getState(roomId).undo()\<close>: the
  object the reference points to is the receiver, and the receiver after the call is
  stored back under the same reference. A reference always points to an object; \<open>None\<close>
  stands for a reference that was never allocated.
\<close>

definition invoke ::
  "ref \<Rightarrow> (heap \<times> DrawingState \<Rightarrow> 'r \<times> heap \<times> DrawingState) \<Rightarrow> memory \<Rightarrow> ('r \<times> memory) option" where
  "invoke r method m =
     (case states m r of
        None \<Rightarrow> None
      | Some this \<Rightarrow>
          (let (res, h1, this1) = method (arrays m, this)
           in Some (res, m\<lparr>arrays := h1, states := (states m)(r \<mapsto> this1)\<rparr>)))"

section \<open>Views, well-formed logs and calls\<close>

text \<open>The content of a log: what its two arrays hold in the heap, and its counter.\<close>

definition ops_of :: "heap \<times> DrawingState \<Rightarrow> jsval list" where
  "ops_of w = cells (fst w) (operations (snd w))"

definition redo_of :: "heap \<times> DrawingState \<Rightarrow> jsval list" where
  "redo_of w = cells (fst w) (redoStack (snd w))"

definition version_of :: "heap \<times> DrawingState \<Rightarrow> nat" where
  "version_of w = version (snd w)"

text \<open>
  The constructor gives a log two distinct allocated arrays, and the methods keep it so:
  both references point below \<open>next_addr\<close> and differ.
\<close>

definition wf_log :: "heap \<times> DrawingState \<Rightarrow> bool" where
  "wf_log w = (operations (snd w) \<noteq> redoStack (snd w)
           \<and> operations (snd w) < next_addr (fst w)
           \<and> redoStack (snd w) < next_addr (fst w))"

text \<open>The log of a fresh \<open>DrawingState\<close> on an empty heap.\<close>

definition heap0 :: heap where
  "heap0 = \<lparr>cells = (\<lambda>a. []), next_addr = 0\<rparr>"

definition log0 :: "heap \<times> DrawingState" where
  "log0 = (snd (new_DrawingState heap0), fst (new_DrawingState heap0))"

text \<open>
  The calls a connection can make on a log, the log after a call, and when the call is a
  successful mutation: an append of a candidate the validator accepts, an undo with
  operations present, a redo with an undone operation present, a removal by author for a
  non-empty \<open>userId\<close> that has authored at least one entry of \<open>operations\<close> (the removed
  count is then nonzero), a clear of a non-empty log. A snapshot only reads. Success is
  read off the candidate and the log before the call, never off what the call returns.
\<close>

datatype call = Append jsval | Undo | Redo | RemoveByAuthor string | ClearAll | Snapshot

fun step :: "call \<Rightarrow> heap \<times> DrawingState \<Rightarrow> heap \<times> DrawingState" where
  "step (Append op) w = snd (addOperation op w)"
| "step Undo w = snd (undo w)"
| "step Redo w = snd (redo w)"
| "step (RemoveByAuthor u) w = snd (removeByUser u w)"
| "step ClearAll w = snd (clearAll w)"
| "step Snapshot w = w"

fun successful :: "call \<Rightarrow> heap \<times> DrawingState \<Rightarrow> bool" where
  "successful (Append op) w = (validateOperation op = Inr ())"
| "successful Undo w = (ops_of w \<noteq> [])"
| "successful Redo w = (redo_of w \<noteq> [])"
| "successful (RemoveByAuthor u) w =
     (u \<noteq> [] \<and> (\<exists>op \<in> set (ops_of w). get_prop op ''userId'' = JStr u))"
| "successful ClearAll w = (ops_of w \<noteq> [])"
| "successful Snapshot w = False"

fun run :: "call list \<Rightarrow> heap \<times> DrawingState \<Rightarrow> heap \<times> DrawingState" where
  "run [] w = w"
| "run (c # cs) w = run cs (step c w)"

text \<open>Whether a mutation assigns a new array to \<^verbatim>\<open>this.operations\<close> instead of changing the old one.\<close>

fun replaces_array :: "call \<Rightarrow> bool" where
  "replaces_array (RemoveByAuthor u) = True"
| "replaces_array ClearAll = True"
| "replaces_array _ = False"

section \<open>The validation rules as the specification words them\<close>

text \<open>
  The rules of the Operation Validator, stated from the specification and not from the
  code. Stroke: at least two points, \<open>size\<close> a positive number, \<open>color\<close> a string,
  \<open>composite\<close> one of the two tokens. Shape: kind one of the three tokens, \<open>x\<close> and \<open>y\<close>
  numbers, legacy \<open>size > 0\<close> or \<open>width > 0\<close> and \<open>height > 0\<close>, \<open>color\<close> a string.
  ShapeUpdate: \<open>targetId\<close> a non-empty string and at least one of a position pair, a
  dimension pair (positive width and height) or a color, well-typed. A candidate with any
  other type tag satisfies no rule.
\<close>

fun is_number :: "jsval \<Rightarrow> bool" where
  "is_number (JNum n) = True"
| "is_number _ = False"

fun is_string :: "jsval \<Rightarrow> bool" where
  "is_string (JStr s) = True"
| "is_string _ = False"

fun positive_number :: "jsval \<Rightarrow> bool" where
  "positive_number (JNum NegInf) = False"
| "positive_number (JNum (Fin r)) = (0 < r)"
| "positive_number (JNum PosInf) = True"
| "positive_number _ = False"

fun at_least_two_points :: "jsval \<Rightarrow> bool" where
  "at_least_two_points (JArr ps) = (2 \<le> length ps)"
| "at_least_two_points _ = False"

fun nonempty_string :: "jsval \<Rightarrow> bool" where
  "nonempty_string (JStr s) = (s \<noteq> [])"
| "nonempty_string _ = False"

definition stroke_rules :: "jsval \<Rightarrow> bool" where
  "stroke_rules op =
     (at_least_two_points (get_prop op ''points'')
      \<and> positive_number (get_prop op ''size'')
      \<and> is_string (get_prop op ''color'')
      \<and> (get_prop op ''composite'' = JStr ''source-over''
           \<or> get_prop op ''composite'' = JStr ''destination-out''))"

definition shape_rules :: "jsval \<Rightarrow> bool" where
  "shape_rules op =
     ((get_prop op ''shape'' = JStr ''circle'' \<or> get_prop op ''shape'' = JStr ''square''
         \<or> get_prop op ''shape'' = JStr ''triangle'')
      \<and> is_number (get_prop op ''x'') \<and> is_number (get_prop op ''y'')
      \<and> (positive_number (get_prop op ''size'')
           \<or> (positive_number (get_prop op ''width'') \<and> positive_number (get_prop op ''height'')))
      \<and> is_string (get_prop op ''color''))"

definition update_field :: "jsval \<Rightarrow> bool" where
  "update_field op =
     ((is_number (get_prop op ''x'') \<and> is_number (get_prop op ''y''))
      \<or> (positive_number (get_prop op ''width'') \<and> positive_number (get_prop op ''height''))
      \<or> is_string (get_prop op ''color''))"

definition shape_update_rules :: "jsval \<Rightarrow> bool" where
  "shape_update_rules op = (nonempty_string (get_prop op ''targetId'') \<and> update_field op)"

definition satisfies_rules :: "jsval \<Rightarrow> bool" where
  "satisfies_rules op =
     ((get_prop op ''type'' = JStr ''stroke'' \<and> stroke_rules op)
      \<or> (get_prop op ''type'' = JStr ''shape'' \<and> shape_rules op)
      \<or> (get_prop op ''type'' = JStr ''shape:update'' \<and> shape_update_rules op))"

section \<open>Sample values\<close>

definition point :: "real \<Rightarrow> real \<Rightarrow> jsval" where
  "point x y = JObj [(''x'', JNum (Fin x)), (''y'', JNum (Fin y))]"

text \<open>A stroke of two points, size 4, colour \<^verbatim>\<open>#000\<close>, stamped for the author \<open>u\<close>.\<close>

definition stroke_by :: "string \<Rightarrow> jsval" where
  "stroke_by u =
     JObj [(''type'', JStr ''stroke''), (''points'', JArr [point 0 0, point 1 1]),
           (''size'', JNum (Fin 4)), (''color'', JStr ''#000''),
           (''composite'', JStr ''source-over''), (''id'', JStr ''op1''), (''userId'', JStr u)]"

text \<open>The same stroke with a single point.\<close>

definition short_stroke :: jsval where
  "short_stroke =
     JObj [(''type'', JStr ''stroke''), (''points'', JArr [point 0 0]),
           (''size'', JNum (Fin 4)), (''color'', JStr ''#000''),
           (''composite'', JStr ''source-over''), (''id'', JStr ''op2''), (''userId'', JStr ''A'')]"

text \<open>A recolouring of a shape \<^verbatim>\<open>s9\<close> that no log entry need carry.\<close>

definition recolor :: jsval where
  "recolor =
     JObj [(''type'', JStr ''shape:update''), (''targetId'', JStr ''s9''),
           (''color'', JStr ''#f00''), (''id'', JStr ''op3''), (''userId'', JStr ''A'')]"

text \<open>The number of successful mutations along a sequence of calls.\<close>

fun successes :: "call list \<Rightarrow> heap \<times> DrawingState \<Rightarrow> nat" where
  "successes [] w = 0"
| "successes (c # cs) w = (if successful c w then 1 else 0) + successes cs (step c w)"

section \<open>Sample logs\<close>

text \<open>One stroke by \<open>A\<close>, committed and undone: nothing in \<open>operations\<close>, one entry to redo.\<close>

definition log_undone :: "heap \<times> DrawingState" where
  "log_undone = run [Append (stroke_by ''A''), Undo] log0"

text \<open>Strokes by \<open>A\<close> and \<open>B\<close>, the second undone.\<close>

definition log_redo :: "heap \<times> DrawingState" where
  "log_redo = run [Append (stroke_by ''A''), Append (stroke_by ''B''), Undo] log0"

text \<open>Strokes by \<open>A\<close>, \<open>B\<close> and \<open>A\<close> again.\<close>

definition log_three :: "heap \<times> DrawingState" where
  "log_three = run [Append (stroke_by ''A''), Append (stroke_by ''B''), Append (stroke_by ''A'')] log0"

text \<open>One stroke whose \<^verbatim>\<open>userId\<close> is the empty string.\<close>

definition log_anon :: "heap \<times> DrawingState" where
  "log_anon = run [Append (stroke_by [])] log0"

text \<open>A registry with no room, and one where the room \<^verbatim>\<open>lobby\<close> has been created.\<close>

definition memory0 :: memory where
  "memory0 = \<lparr>arrays = heap0, states = Map.empty, next_ref = 0\<rparr>"

definition registry0 :: "memory \<times> RoomManager" where
  "registry0 = (memory0, new_RoomManager)"

definition registry1 :: "memory \<times> RoomManager" where
  "registry1 = ensureRoom ''lobby'' registry0"

text \<open>Candidates that break a rule: an unknown shape kind, an empty target, an unknown tag.\<close>

definition hexagon :: jsval where
  "hexagon =
     JObj [(''type'', JStr ''shape''), (''shape'', JStr ''hexagon''), (''x'', JNum (Fin 0)),
           (''y'', JNum (Fin 0)), (''width'', JNum (Fin 10)), (''height'', JNum (Fin 10)),
           (''color'', JStr ''#f00'')]"

definition untargeted :: jsval where
  "untargeted = JObj [(''type'', JStr ''shape:update''), (''targetId'', JStr [])]"

definition text_op :: jsval where
  "text_op = JObj [(''type'', JStr ''text''), (''color'', JStr ''#000'')]"

section \<open>The validator meets the rules\<close>

lemma positive_number_iff: "positive_number v = number_gt0 v"
  by (cases v rule: positive_number.cases) simp_all

lemma not_number_or_le0_iff: "not_number_or_le0 v = (\<not> number_gt0 v)"
  by (cases v rule: positive_number.cases) auto

lemma is_number_typeof: "is_number v = (typeof v = ''number'')"
  by (cases v) simp_all

lemma is_string_typeof: "is_string v = (typeof v = ''string'')"
  by (cases v) simp_all

lemma at_least_two_points_iff: "at_least_two_points v = (\<not> fewer_than_two_points v)"
  by (cases v) auto

lemma nonempty_string_iff: "nonempty_string v = (\<not> not_string_or_empty v)"
  by (cases v) auto

lemma typed_truthy: "get_prop op k = JStr (c # cs) \<Longrightarrow> truthy op"
  by (cases op) simp_all

lemma stroke_branch:
  "get_prop op ''type'' = JStr ''stroke'' \<Longrightarrow> (validateOperation op = Inr ()) = stroke_rules op"
  by (auto simp: validateOperation_def stroke_rules_def positive_number_iff is_string_typeof
      at_least_two_points_iff not_number_or_le0_iff typed_truthy)

lemma shape_branch:
  "get_prop op ''type'' = JStr ''shape'' \<Longrightarrow> (validateOperation op = Inr ()) = shape_rules op"
  by (auto simp: validateOperation_def shape_rules_def positive_number_iff is_string_typeof
      is_number_typeof typed_truthy Let_def)

lemma shape_update_branch:
  "get_prop op ''type'' = JStr ''shape:update'' \<Longrightarrow>
     (validateOperation op = Inr ()) = shape_update_rules op"
  by (auto simp: validateOperation_def shape_update_rules_def update_field_def positive_number_iff
      is_string_typeof is_number_typeof nonempty_string_iff typed_truthy Let_def)

lemma other_branch:
  "get_prop op ''type'' \<noteq> JStr ''stroke'' \<Longrightarrow> get_prop op ''type'' \<noteq> JStr ''shape'' \<Longrightarrow>
   get_prop op ''type'' \<noteq> JStr ''shape:update'' \<Longrightarrow> validateOperation op \<noteq> Inr ()"
  by (simp add: validateOperation_def)

lemma validateOperation_iff_rules: "(validateOperation op = Inr ()) = satisfies_rules op"
proof -
  consider (stroke) "get_prop op ''type'' = JStr ''stroke''"
    | (shape) "get_prop op ''type'' = JStr ''shape''"
    | (update) "get_prop op ''type'' = JStr ''shape:update''"
    | (other) "get_prop op ''type'' \<noteq> JStr ''stroke''" "get_prop op ''type'' \<noteq> JStr ''shape''"
        "get_prop op ''type'' \<noteq> JStr ''shape:update''"
    by blast
  then show ?thesis
  proof cases
    case stroke
    then show ?thesis by (simp add: stroke_branch satisfies_rules_def)
  next
    case shape
    then show ?thesis by (simp add: shape_branch satisfies_rules_def)
  next
    case update
    then show ?thesis by (simp add: shape_update_branch satisfies_rules_def)
  next
    case other
    then show ?thesis using other_branch[of op] by (simp add: satisfies_rules_def)
  qed
qed

section \<open>Facts about the heap and the log\<close>

lemma remaining_loop_cells:
  "cells (remaining_loop u ops r h) a =
     (if a = r then cells h r @ filter (\<lambda>op. get_prop op ''userId'' \<noteq> JStr u) ops else cells h a)"
  by (induction ops arbitrary: h) (auto simp: push_def)

lemma remaining_loop_next: "next_addr (remaining_loop u ops r h) = next_addr h"
  by (induction ops arbitrary: h) (auto simp: push_def)

lemma filter_compl_less:
  "(length (filter (\<lambda>x. \<not> P x) xs) < length xs) = (0 < length (filter P xs))"
proof -
  have "length (filter P xs) + length (filter (\<lambda>x. \<not> P x) xs) = length xs"
    by (rule sum_length_filter_compl)
  then show ?thesis by linarith
qed

lemma filter_count_split:
  "length xs - length (filter (\<lambda>x. \<not> P x) xs) = length (filter P xs)"
  using sum_length_filter_compl[of P xs] by simp

lemma removeByUser_unfold:
  assumes "wf_log (h, this)" and "u \<noteq> []"
  shows "removeByUser u (h, this) =
     (let kept = filter (\<lambda>op. get_prop op ''userId'' \<noteq> JStr u) (cells h (operations this));
          n = length (filter (\<lambda>op. get_prop op ''userId'' = JStr u) (cells h (operations this)));
          h' = \<lparr>cells = (cells h)(next_addr h := kept, redoStack this := []),
                next_addr = Suc (next_addr h)\<rparr>
      in (ReturnCount n, h',
          \<lparr>operations = next_addr h, redoStack = redoStack this,
           version = (if n > 0 then version this + 1 else version this)\<rparr>))"
proof -
  from assms(1) have a: "operations this \<noteq> next_addr h" "redoStack this \<noteq> next_addr h"
    by (auto simp: wf_log_def)
  show ?thesis using a assms(2)
    by (auto simp: new_array_def Let_def remaining_loop_cells remaining_loop_next truncate0_def
        filter_count_split filter_compl_less fun_eq_iff)
qed

lemma removeByUser_version:
  assumes "wf_log w"
  shows "version_of (snd (removeByUser u w))
           = (if successful (RemoveByAuthor u) w then version_of w + 1 else version_of w)"
proof (cases "u = []")
  case True
  then show ?thesis by (cases w) simp
next
  case False
  obtain h this where w: "w = (h, this)" by (cases w)
  note eq = removeByUser_unfold[OF assms[unfolded w] False]
  have "(0 < length (filter (\<lambda>op. get_prop op ''userId'' = JStr u) (cells h (operations this))))
          = successful (RemoveByAuthor u) w"
    using False by (simp add: w ops_of_def filter_empty_conv)
  then show ?thesis
    by (simp add: w eq Let_def version_of_def del: removeByUser.simps successful.simps)
qed

lemma version_step:
  assumes "wf_log w"
  shows "version_of (step c w) = (if successful c w then version_of w + 1 else version_of w)"
proof -
  obtain h this where w: "w = (h, this)" by (cases w)
  show ?thesis
  proof (cases c)
    case (Append op)
    then show ?thesis
      by (cases "validateOperation op") (simp_all add: w version_of_def Let_def)
  next
    case Undo
    then show ?thesis
      by (simp add: w version_of_def ops_of_def Let_def split: prod.splits)
  next
    case Redo
    then show ?thesis
      by (simp add: w version_of_def redo_of_def Let_def split: prod.splits)
  next
    case (RemoveByAuthor u)
    then show ?thesis
      using removeByUser_version[OF assms, of u] by (simp del: successful.simps)
  next
    case ClearAll
    then show ?thesis
      by (simp add: w version_of_def ops_of_def Let_def split: prod.splits)
  next
    case Snapshot
    then show ?thesis by simp
  qed
qed

text \<open>
  Well-formedness holds of every log the constructor builds and is kept by every call, so
  it holds of every log a program can reach.
\<close>

lemma wf_log0: "wf_log log0"
  by (simp add: log0_def heap0_def new_DrawingState_def new_array_def wf_log_def)

lemma wf_new_DrawingState: "wf_log (snd (new_DrawingState h), fst (new_DrawingState h))"
  by (simp add: new_DrawingState_def new_array_def wf_log_def)

lemma wf_step: "wf_log w \<Longrightarrow> wf_log (step c w)"
proof -
  assume wf: "wf_log w"
  obtain h this where w: "w = (h, this)" by (cases w)
  show ?thesis
  proof (cases c)
    case (Append op)
    with wf show ?thesis
      by (cases "validateOperation op") (simp_all add: w wf_log_def Let_def push_def truncate0_def)
  next
    case Undo
    with wf show ?thesis by (simp add: w wf_log_def Let_def push_def pop_def)
  next
    case Redo
    with wf show ?thesis by (simp add: w wf_log_def Let_def push_def pop_def)
  next
    case (RemoveByAuthor u)
    with wf show ?thesis
      by (auto simp: w wf_log_def Let_def new_array_def truncate0_def remaining_loop_next)
  next
    case ClearAll
    with wf show ?thesis by (auto simp: w wf_log_def Let_def new_array_def)
  next
    case Snapshot
    with wf show ?thesis by simp
  qed
qed

lemma wf_run: "wf_log w \<Longrightarrow> wf_log (run cs w)"
  by (induction cs arbitrary: w) (simp_all add: wf_step)

lemma version_run: "wf_log w \<Longrightarrow> version_of (run cs w) = version_of w + successes cs w"
proof (induction cs arbitrary: w)
  case Nil
  then show ?case by simp
next
  case (Cons c cs)
  from Cons.prems have "wf_log (step c w)" by (rule wf_step)
  then have "version_of (run cs (step c w)) = version_of (step c w) + successes cs (step c w)"
    by (rule Cons.IH)
  with version_step[OF Cons.prems, of c] show ?case by simp
qed

lemma ensureRoom_absent:
  assumes "rooms this roomId = None"
  shows "ensureRoom roomId (m, this) =
     (m\<lparr>arrays := \<lparr>cells = (cells (arrays m))(next_addr (arrays m) := [],
                                              Suc (next_addr (arrays m)) := []),
                    next_addr = Suc (Suc (next_addr (arrays m)))\<rparr>,
        states := (states m)(next_ref m \<mapsto>
                    \<lparr>operations = next_addr (arrays m), redoStack = Suc (next_addr (arrays m)),
                     version = 0\<rparr>),
        next_ref := Suc (next_ref m)\<rparr>,
      this\<lparr>rooms := (rooms this)(roomId \<mapsto> \<lparr>state = next_ref m, users = []\<rparr>)\<rparr>)"
  using assms by (simp add: new_DrawingState_def new_array_def Let_def)

lemma ensureRoom_present:
  "rooms this roomId \<noteq> None \<Longrightarrow> ensureRoom roomId (m, this) = (m, this)"
  by auto

lemma ensureRoom_has: "rooms (snd (ensureRoom roomId w)) roomId \<noteq> None"
  by (cases w) (simp add: Let_def split: prod.splits)

lemma ensureRoom_idem: "ensureRoom roomId (ensureRoom roomId w) = ensureRoom roomId w"
proof -
  obtain h' this' where e: "ensureRoom roomId w = (h', this')" by (cases "ensureRoom roomId w")
  with ensureRoom_has[of roomId w] have "rooms this' roomId \<noteq> None" by simp
  then show ?thesis by (auto simp: e)
qed

text \<open>
  The reference \<open>getState\<close> returns is the one the room holds: after a method has been
  called through it, a later \<open>getState\<close> for the same room returns the same reference,
  and the object behind it is the receiver as the method left it.
\<close>

lemma getState_after_invoke:
  assumes "getState roomId w = (Inr r, m1, t1)" and "states m1 r = Some this"
    and "method (arrays m1, this) = (res, h2, this2)"
  shows "invoke r method m1 = Some (res, m1\<lparr>arrays := h2, states := (states m1)(r \<mapsto> this2)\<rparr>)
       \<and> getState roomId (m1\<lparr>arrays := h2, states := (states m1)(r \<mapsto> this2)\<rparr>, t1)
           = (Inr r, m1\<lparr>arrays := h2, states := (states m1)(r \<mapsto> this2)\<rparr>, t1)"
proof -
  obtain m0 t0 where w: "w = (m0, t0)" by (cases w)
  from assms(1) have room: "rooms t1 roomId \<noteq> None \<and> (\<forall>rm. rooms t1 roomId = Some rm \<longrightarrow> state rm = r)"
    by (auto simp: w Let_def split: if_splits prod.splits option.splits)
  have "invoke r method m1 = Some (res, m1\<lparr>arrays := h2, states := (states m1)(r \<mapsto> this2)\<rparr>)"
    using assms(2,3) by (simp add: invoke_def)
  moreover have "getState roomId (m1\<lparr>arrays := h2, states := (states m1)(r \<mapsto> this2)\<rparr>, t1)
           = (Inr r, m1\<lparr>arrays := h2, states := (states m1)(r \<mapsto> this2)\<rparr>, t1)"
    using room by auto
  ultimately show ?thesis by simp
qed

lemma log0_eq:
  "log0 = (\<lparr>cells = (\<lambda>a. [])(0 := [], Suc 0 := []), next_addr = 2\<rparr>,
           \<lparr>operations = 0, redoStack = Suc 0, version = 0\<rparr>)"
  by (simp add: log0_def heap0_def new_DrawingState_def new_array_def numeral_2_eq_2)

lemma stroke_by_ok: "satisfies_rules (stroke_by u)"
  by (simp add: satisfies_rules_def stroke_rules_def stroke_by_def)

lemma stroke_by_valid: "validateOperation (stroke_by u) = Inr ()"
  by (simp add: validateOperation_iff_rules stroke_by_ok)

lemma log_undone_eval:
  "ops_of log_undone = [] \<and> redo_of log_undone = [stroke_by ''A''] \<and> version_of log_undone = 2"
  by (simp add: log_undone_def log0_eq stroke_by_valid ops_of_def redo_of_def version_of_def
      push_def pop_def truncate0_def)

lemma log_anon_eval:
  "ops_of log_anon = [stroke_by []] \<and> redo_of log_anon = [] \<and> version_of log_anon = 1"
  by (simp add: log_anon_def log0_eq stroke_by_valid ops_of_def redo_of_def version_of_def
      push_def pop_def truncate0_def)

lemma removeByUser_falsy: "removeByUser [] w = (ReturnFalse, w)"
  by (cases w) simp

lemma removeByUser_redo_empty:
  assumes "wf_log w" and "u \<noteq> []"
  shows "redo_of (snd (removeByUser u w)) = []"
proof -
  obtain h this where w: "w = (h, this)" by (cases w)
  note eq = removeByUser_unfold[OF assms(1)[unfolded w] assms(2)]
  show ?thesis by (simp add: w eq Let_def redo_of_def del: removeByUser.simps)
qed

lemma clearAll_redo_empty: "redo_of (snd (clearAll w)) = []"
  by (cases w) (simp add: redo_of_def new_array_def Let_def)

lemma userId_stroke_by: "get_prop (stroke_by u) ''userId'' = JStr u"
  by (simp add: stroke_by_def)

lemma getState_sees_append:
  "fst (getState ''lobby'' registry0) = Inr 0
   \<and> map_option (\<lambda>res. version_of (arrays (snd res), the (states (snd res) 0)))
        (invoke 0 (addOperation (stroke_by ''A'')) (fst (snd (getState ''lobby'' registry0))))
       = Some 1"
  by (simp add: registry0_def memory0_def new_RoomManager_def heap0_def new_DrawingState_def
      new_array_def invoke_def stroke_by_valid version_of_def Let_def)

lemma log_redo_eval:
  "ops_of log_redo = [stroke_by ''A''] \<and> redo_of log_redo = [stroke_by ''B'']
   \<and> version_of log_redo = 3"
  by (simp add: log_redo_def log0_eq stroke_by_valid ops_of_def redo_of_def version_of_def
      push_def pop_def truncate0_def)

lemma log_three_eval:
  "ops_of log_three = [stroke_by ''A'', stroke_by ''B'', stroke_by ''A''] \<and> redo_of log_three = []
   \<and> version_of log_three = 3"
  by (simp add: log_three_def log0_eq stroke_by_valid ops_of_def redo_of_def version_of_def
      push_def pop_def truncate0_def)

lemma log0_eval: "ops_of log0 = [] \<and> redo_of log0 = [] \<and> version_of log0 = 0"
  by (simp add: log0_eq ops_of_def redo_of_def version_of_def)

lemma wf_log_undone: "wf_log log_undone"
  unfolding log_undone_def by (rule wf_run[OF wf_log0])

lemma wf_log_redo: "wf_log log_redo"
  unfolding log_redo_def by (rule wf_run[OF wf_log0])

lemma wf_log_three: "wf_log log_three"
  unfolding log_three_def by (rule wf_run[OF wf_log0])

lemma wf_log_anon: "wf_log log_anon"
  unfolding log_anon_def by (rule wf_run[OF wf_log0])

section \<open>Appending\<close>

text \<open>
  Claim C1. For every candidate operation that satisfies the validation rules of its
  variant, on every well-formed log, \<open>addOperation\<close> returns normally: the operation is the
  new last element of \<open>operations\<close>, \<open>redoStack\<close> is empty and \<open>version\<close> has grown by
  exactly 1.
\<close>

theorem addOperation_valid:
  assumes "wf_log w" and "satisfies_rules op"
  shows "fst (addOperation op w) = Inr ()
       \<and> ops_of (snd (addOperation op w)) = ops_of w @ [op]
       \<and> redo_of (snd (addOperation op w)) = []
       \<and> version_of (snd (addOperation op w)) = version_of w + 1"
proof -
  obtain h this where w: "w = (h, this)" by (cases w)
  from assms(2) have ok: "validateOperation op = Inr ()"
    by (simp add: validateOperation_iff_rules)
  from assms(1) w have neq: "operations this \<noteq> redoStack this"
    by (simp add: wf_log_def)
  show ?thesis using ok neq
    by (simp add: w ops_of_def redo_of_def version_of_def push_def truncate0_def)
qed

theorem addOperation_valid_witness:
  "wf_log log_undone \<and> satisfies_rules (stroke_by ''B'')
   \<and> redo_of log_undone = [stroke_by ''A'']
   \<and> fst (addOperation (stroke_by ''B'') log_undone) = Inr ()
   \<and> ops_of (snd (addOperation (stroke_by ''B'') log_undone)) = [stroke_by ''B'']
   \<and> redo_of (snd (addOperation (stroke_by ''B'') log_undone)) = []
   \<and> version_of (snd (addOperation (stroke_by ''B'') log_undone)) = 3"
proof -
  have a: "wf_log log_undone" by (rule wf_log_undone)
  have b: "satisfies_rules (stroke_by ''B'')" by (rule stroke_by_ok)
  from addOperation_valid[OF a b] a b show ?thesis by (simp add: log_undone_eval)
qed

text \<open>
  Claim C2. For every candidate operation that violates the validation rules (a stroke
  with fewer than two points, a shape of unknown kind, a shape update with an empty
  \<open>targetId\<close>, an unknown type tag, or any other violation), \<open>addOperation\<close> throws an
  error and the log is as before the call: the heap, hence the content of \<open>operations\<close>
  and \<open>redoStack\<close>, and the receiver with its \<open>version\<close> are unchanged.
\<close>

theorem addOperation_invalid:
  assumes "\<not> satisfies_rules op"
  shows "(\<exists>e. fst (addOperation op w) = Inl e)
       \<and> snd (addOperation op w) = w
       \<and> ops_of (snd (addOperation op w)) = ops_of w
       \<and> redo_of (snd (addOperation op w)) = redo_of w
       \<and> version_of (snd (addOperation op w)) = version_of w"
proof -
  obtain h this where w: "w = (h, this)" by (cases w)
  from assms have "validateOperation op \<noteq> Inr ()"
    by (simp add: validateOperation_iff_rules)
  then obtain e where "validateOperation op = Inl e"
    by (cases "validateOperation op") auto
  then show ?thesis by (simp add: w)
qed

theorem addOperation_invalid_witness:
  "\<not> satisfies_rules short_stroke \<and> \<not> satisfies_rules hexagon
   \<and> \<not> satisfies_rules untargeted \<and> \<not> satisfies_rules text_op
   \<and> (\<exists>e. fst (addOperation short_stroke log_redo) = Inl e)
   \<and> snd (addOperation short_stroke log_redo) = log_redo
   \<and> (\<exists>e. fst (addOperation hexagon log_redo) = Inl e)
   \<and> snd (addOperation hexagon log_redo) = log_redo
   \<and> (\<exists>e. fst (addOperation untargeted log_redo) = Inl e)
   \<and> snd (addOperation untargeted log_redo) = log_redo
   \<and> (\<exists>e. fst (addOperation text_op log_redo) = Inl e)
   \<and> snd (addOperation text_op log_redo) = log_redo"
proof -
  have a: "\<not> satisfies_rules short_stroke"
    by (simp add: satisfies_rules_def stroke_rules_def short_stroke_def)
  have b: "\<not> satisfies_rules hexagon"
    by (simp add: satisfies_rules_def shape_rules_def hexagon_def)
  have c: "\<not> satisfies_rules untargeted"
    by (simp add: satisfies_rules_def shape_update_rules_def untargeted_def)
  have d: "\<not> satisfies_rules text_op"
    by (simp add: satisfies_rules_def text_op_def)
  from addOperation_invalid[OF a, of log_redo] addOperation_invalid[OF b, of log_redo]
    addOperation_invalid[OF c, of log_redo] addOperation_invalid[OF d, of log_redo] a b c d
  show ?thesis by blast
qed

section \<open>Removing by author\<close>

text \<open>
  Where a non-empty \<open>u\<close> has authored no entry of \<open>operations\<close>, \<open>removeByUser\<close> reports
  the count zero and keeps the content of \<open>operations\<close> and \<open>version\<close>.
\<close>

lemma removeByUser_none_authored_frame:
  assumes "wf_log w" and "u \<noteq> []"
    and "\<forall>op \<in> set (ops_of w). get_prop op ''userId'' \<noteq> JStr u"
  shows "fst (removeByUser u w) = ReturnCount 0
       \<and> ops_of (snd (removeByUser u w)) = ops_of w
       \<and> version_of (snd (removeByUser u w)) = version_of w"
proof -
  obtain h this where w: "w = (h, this)" by (cases w)
  from assms(3) w have none:
    "filter (\<lambda>op. get_prop op ''userId'' = JStr u) (cells h (operations this)) = []"
    by (auto simp: ops_of_def filter_empty_conv)
  from assms(3) w have all:
    "filter (\<lambda>op. get_prop op ''userId'' \<noteq> JStr u) (cells h (operations this))
       = cells h (operations this)"
    by (auto simp: ops_of_def filter_id_conv)
  from assms(1) w have a: "redoStack this \<noteq> next_addr h" by (auto simp: wf_log_def)
  note eq = removeByUser_unfold[OF assms(1)[unfolded w] assms(2)]
  have "fst (removeByUser u w) = ReturnCount 0"
    by (simp add: w eq none Let_def del: removeByUser.simps)
  moreover have "ops_of (snd (removeByUser u w)) = ops_of w"
    using a by (simp add: w eq all Let_def ops_of_def del: removeByUser.simps)
  moreover have "version_of (snd (removeByUser u w)) = version_of w"
    by (simp add: w eq none Let_def version_of_def del: removeByUser.simps)
  ultimately show ?thesis by simp
qed

text \<open>
  Claim C3. In every log in which no entry of \<open>operations\<close> is authored by the given
  \<open>userId\<close>, a removal by author is to return zero and leave \<open>operations\<close>, the redo
  buffer and \<open>version\<close> as they were; in particular the redo buffer is not to be cleared.
  \<open>removeByUser\<close> does not keep the redo buffer: it truncates \<open>redoStack\<close>, under the
  comment \<^verbatim>\<open>Clear redo stack since history changed\<close>, before it tests the removed count.
  After one stroke by \<open>A\<close> has been committed and undone, \<open>B\<close> has authored nothing; the
  call for \<open>B\<close> returns zero and keeps \<open>operations\<close> and \<open>version\<close>, and the stroke that
  was waiting to be redone is gone.
\<close>

theorem removeByUser_none_authored_clears_redo:
  "ops_of log_undone = [] \<and> redo_of log_undone = [stroke_by ''A''] \<and> version_of log_undone = 2
   \<and> fst (removeByUser ''B'' log_undone) = ReturnCount 0
   \<and> ops_of (snd (removeByUser ''B'' log_undone)) = []
   \<and> version_of (snd (removeByUser ''B'' log_undone)) = 2
   \<and> redo_of (snd (removeByUser ''B'' log_undone)) = []"
proof -
  have u: "''B'' \<noteq> []" by simp
  have none: "\<forall>op \<in> set (ops_of log_undone). get_prop op ''userId'' \<noteq> JStr ''B''"
    by (simp add: log_undone_eval)
  from removeByUser_none_authored_frame[OF wf_log_undone u none]
    removeByUser_redo_empty[OF wf_log_undone u]
  show ?thesis by (simp add: log_undone_eval)
qed

text \<open>
  Claim C7, as the code has it. On a well-formed log and for every non-empty \<open>u\<close>,
  \<open>removeByUser\<close> leaves in \<open>operations\<close> exactly the prior entries whose \<open>userId\<close> is not
  \<open>u\<close>, in their prior order, and returns the number of entries whose \<open>userId\<close> is \<open>u\<close>. For
  the empty (falsy) \<open>u\<close> the guard returns \<^verbatim>\<open>false\<close> and nothing is removed.
\<close>

theorem removeByUser_filter:
  assumes "wf_log w"
  shows "(u \<noteq> [] \<longrightarrow>
            ops_of (snd (removeByUser u w)) = filter (\<lambda>op. get_prop op ''userId'' \<noteq> JStr u) (ops_of w)
          \<and> fst (removeByUser u w)
              = ReturnCount (length (filter (\<lambda>op. get_prop op ''userId'' = JStr u) (ops_of w))))
       \<and> (u = [] \<longrightarrow> removeByUser u w = (ReturnFalse, w))"
proof -
  obtain h this where w: "w = (h, this)" by (cases w)
  from assms(1) w have a: "redoStack this \<noteq> next_addr h" by (auto simp: wf_log_def)
  show ?thesis
  proof (intro conjI impI)
    assume "u = []" then show "removeByUser u w = (ReturnFalse, w)" by (simp add: w)
  next
    assume u: "u \<noteq> []"
    note eq = removeByUser_unfold[OF assms(1)[unfolded w] u]
    show "ops_of (snd (removeByUser u w)) = filter (\<lambda>op. get_prop op ''userId'' \<noteq> JStr u) (ops_of w)"
      using a by (simp add: w eq Let_def ops_of_def del: removeByUser.simps)
    show "fst (removeByUser u w)
              = ReturnCount (length (filter (\<lambda>op. get_prop op ''userId'' = JStr u) (ops_of w)))"
      by (simp add: w eq Let_def ops_of_def del: removeByUser.simps)
  qed
qed

theorem removeByUser_filter_witness:
  "wf_log log_three
   \<and> ops_of log_three = [stroke_by ''A'', stroke_by ''B'', stroke_by ''A'']
   \<and> ops_of (snd (removeByUser ''A'' log_three)) = [stroke_by ''B'']
   \<and> fst (removeByUser ''A'' log_three) = ReturnCount 2
   \<and> removeByUser [] log_three = (ReturnFalse, log_three)"
proof -
  have a: "wf_log log_three" by (rule wf_log_three)
  from removeByUser_filter[OF a, of "''A''"] removeByUser_filter[OF a, of "[]"] a
  show ?thesis by (simp add: log_three_eval userId_stroke_by)
qed

text \<open>
  Claim C7 as stated fails at the empty \<open>userId\<close>: in a log whose only entry has the empty
  string as its \<open>userId\<close>, that entry is authored by \<open>u = []\<close> and is still there after
  \<open>removeByUser\<close>, which returns \<^verbatim>\<open>false\<close> instead of a count.
\<close>

theorem removeByUser_empty_userId:
  "ops_of log_anon = [stroke_by []]
   \<and> get_prop (stroke_by []) ''userId'' = JStr []
   \<and> ops_of (snd (removeByUser [] log_anon)) = [stroke_by []]
   \<and> fst (removeByUser [] log_anon) = ReturnFalse"
  by (simp add: removeByUser_falsy log_anon_eval userId_stroke_by)

section \<open>Clearing\<close>

text \<open>
  Claim C4, as the code has it. On every log whose \<open>operations\<close> is empty, \<open>clearAll\<close>
  returns zero, leaves \<open>operations\<close> empty and \<open>version\<close> unchanged, and leaves
  \<open>redoStack\<close> empty whatever it held.
\<close>

theorem clearAll_empty:
  assumes "ops_of w = []"
  shows "fst (clearAll w) = 0
       \<and> ops_of (snd (clearAll w)) = ops_of w
       \<and> version_of (snd (clearAll w)) = version_of w
       \<and> redo_of (snd (clearAll w)) = []"
proof -
  obtain h this where w: "w = (h, this)" by (cases w)
  from assms w have e: "cells h (operations this) = []" by (simp add: ops_of_def)
  show ?thesis using e
    by (simp add: w ops_of_def redo_of_def version_of_def new_array_def Let_def)
qed

theorem clearAll_empty_witness:
  "ops_of log_undone = [] \<and> redo_of log_undone = [stroke_by ''A'']
   \<and> fst (clearAll log_undone) = 0
   \<and> ops_of (snd (clearAll log_undone)) = []
   \<and> version_of (snd (clearAll log_undone)) = 2
   \<and> redo_of (snd (clearAll log_undone)) = []"
proof -
  have a: "ops_of log_undone = []" by (simp add: log_undone_eval)
  from clearAll_empty[OF a] a show ?thesis by (simp add: log_undone_eval)
qed

text \<open>
  Claim C4 as stated fails where \<open>redoStack\<close> is non-empty: immediately after an undo of
  the only operation, \<open>operations\<close> is empty and \<open>clearAll\<close> changes \<open>redoStack\<close>.
\<close>

theorem clearAll_empty_clears_redo:
  "ops_of log_undone = [] \<and> redo_of (snd (clearAll log_undone)) \<noteq> redo_of log_undone"
  by (simp add: clearAll_redo_empty log_undone_eval)

section \<open>Snapshots\<close>

text \<open>
  Claim C5, as the code has it. \<open>getSnapshot\<close> copies \<open>version\<close> by value and shares the
  array of \<open>operations\<close>. For a snapshot taken of a well-formed log before a successful
  mutation: its version is the version before the mutation; after \<open>removeByUser\<close> or
  \<open>clearAll\<close>, which give the log a new array, its operations are still the sequence
  before the mutation; after \<open>addOperation\<close>, \<open>undo\<close> or \<open>redo\<close>, which change the array
  in place, its operations are the log's sequence after the mutation.
\<close>

theorem getSnapshot_shares_array:
  assumes "wf_log w" and "successful c w"
  shows "snap_version (getSnapshot (snd w)) = version_of w
       \<and> snapshot_operations (fst (step c w)) (getSnapshot (snd w))
           = (if replaces_array c then ops_of w else ops_of (step c w))"
proof -
  obtain h this where w: "w = (h, this)" by (cases w)
  from assms(1) w have a: "operations this \<noteq> next_addr h" "operations this \<noteq> Suc (next_addr h)"
    "operations this \<noteq> redoStack this"
    by (auto simp: wf_log_def)
  show ?thesis
  proof (cases c)
    case (Append op)
    with assms(2) show ?thesis
      by (simp add: w getSnapshot_def snapshot_operations_def version_of_def ops_of_def)
  next
    case Undo
    with assms(2) show ?thesis
      by (simp add: w getSnapshot_def snapshot_operations_def version_of_def ops_of_def Let_def
          split: prod.splits)
  next
    case Redo
    with assms(2) show ?thesis
      by (simp add: w getSnapshot_def snapshot_operations_def version_of_def ops_of_def redo_of_def
          Let_def split: prod.splits)
  next
    case (RemoveByAuthor u)
    with assms(2) a show ?thesis
      by (auto simp: w getSnapshot_def snapshot_operations_def version_of_def ops_of_def Let_def
          new_array_def truncate0_def remaining_loop_cells)
  next
    case ClearAll
    with assms(2) a show ?thesis
      by (auto simp: w getSnapshot_def snapshot_operations_def version_of_def ops_of_def Let_def
          new_array_def)
  next
    case Snapshot
    with assms(2) show ?thesis by simp
  qed
qed

theorem getSnapshot_shares_array_witness:
  "wf_log log_three \<and> successful ClearAll log_three \<and> successful Undo log_three
   \<and> snap_version (getSnapshot (snd log_three)) = 3
   \<and> snapshot_operations (fst (step ClearAll log_three)) (getSnapshot (snd log_three))
       = [stroke_by ''A'', stroke_by ''B'', stroke_by ''A'']
   \<and> snapshot_operations (fst (step Undo log_three)) (getSnapshot (snd log_three))
       = ops_of (step Undo log_three)"
proof -
  have a: "wf_log log_three" by (rule wf_log_three)
  have b: "successful ClearAll log_three" by (simp add: log_three_eval)
  have c: "successful Undo log_three" by (simp add: log_three_eval)
  from getSnapshot_shares_array[OF a b] getSnapshot_shares_array[OF a c] a b c
  show ?thesis by (simp add: log_three_eval)
qed

text \<open>
  Claim C5 as stated fails for a mutation in place: a snapshot of the fresh log, read
  after one valid stroke has been appended, no longer shows the empty sequence it was
  taken of.
\<close>

theorem getSnapshot_not_by_value:
  "wf_log log0 \<and> successful (Append (stroke_by ''A'')) log0
   \<and> snapshot_operations (fst (step (Append (stroke_by ''A'')) log0)) (getSnapshot (snd log0))
       \<noteq> ops_of log0"
  by (simp add: wf_log0 stroke_by_valid)
     (simp add: log0_eq stroke_by_valid snapshot_operations_def getSnapshot_def ops_of_def
        push_def truncate0_def)

section \<open>Undo and redo\<close>

text \<open>
  Claim C6. On every log whose \<open>operations\<close> is non-empty, \<open>undo\<close> followed by \<open>redo\<close>
  returns \<^verbatim>\<open>true\<close> both times, gives back \<open>operations\<close> (and \<open>redoStack\<close>) exactly as
  they were, and leaves \<open>version\<close> at its initial value plus 2.
\<close>

theorem undo_then_redo:
  assumes "ops_of w \<noteq> []"
  shows "fst (undo w) = True \<and> fst (redo (snd (undo w))) = True
       \<and> ops_of (snd (redo (snd (undo w)))) = ops_of w
       \<and> redo_of (snd (redo (snd (undo w)))) = redo_of w
       \<and> version_of (snd (redo (snd (undo w)))) = version_of w + 2"
proof -
  obtain h this where w: "w = (h, this)" by (cases w)
  from assms w have ne: "cells h (operations this) \<noteq> []" by (simp add: ops_of_def)
  show ?thesis using ne
    by (simp add: w ops_of_def redo_of_def version_of_def push_def pop_def Let_def)
qed

theorem undo_then_redo_witness:
  "ops_of log_three \<noteq> []
   \<and> fst (undo log_three) = True \<and> fst (redo (snd (undo log_three))) = True
   \<and> ops_of (snd (redo (snd (undo log_three)))) = [stroke_by ''A'', stroke_by ''B'', stroke_by ''A'']
   \<and> version_of (snd (redo (snd (undo log_three)))) = 5"
proof -
  have a: "ops_of log_three \<noteq> []" by (simp add: log_three_eval)
  from undo_then_redo[OF a] a show ?thesis by (simp add: log_three_eval)
qed

section \<open>The version counter\<close>

text \<open>
  Claim C8. On every well-formed log \<open>version\<close> changes on and only on a successful
  mutation, by exactly 1: a call that is a valid append, an undo with operations present, a
  redo with an undone operation present, a removal by author that has entries to remove
  (a non-empty \<open>userId\<close> with an entry of \<open>operations\<close> authored by it) or a clear of a
  non-empty log adds 1,
  and every other call (a rejected append, an undo or redo with nothing to move, a removal
  or clear that removes nothing, a snapshot) leaves it unchanged. Over any sequence of
  calls the version is the initial one plus the number of successful mutations, so it
  never decreases.
\<close>

theorem version_counter:
  assumes "wf_log w"
  shows "version_of (step c w) = (if successful c w then version_of w + 1 else version_of w)
       \<and> version_of (run cs w) = version_of w + successes cs w
       \<and> version_of w \<le> version_of (run cs w)"
  using assms by (simp add: version_step version_run)

theorem version_counter_witness:
  "wf_log log0 \<and> wf_log log_undone \<and> wf_log log_three \<and> wf_log log_anon
   \<and> successful (Append (stroke_by ''A'')) log0
   \<and> version_of (step (Append (stroke_by ''A'')) log0) = 1
   \<and> \<not> successful (Append short_stroke) log0
   \<and> version_of (step (Append short_stroke) log0) = 0
   \<and> \<not> successful Undo log0 \<and> version_of (step Undo log0) = 0
   \<and> successful Undo log_three \<and> version_of (step Undo log_three) = 4
   \<and> successful Redo log_undone \<and> version_of (step Redo log_undone) = 3
   \<and> \<not> successful Redo log_three \<and> version_of (step Redo log_three) = 3
   \<and> successful (RemoveByAuthor ''A'') log_three
   \<and> version_of (step (RemoveByAuthor ''A'') log_three) = 4
   \<and> \<not> successful (RemoveByAuthor ''C'') log_three
   \<and> version_of (step (RemoveByAuthor ''C'') log_three) = 3
   \<and> \<not> successful (RemoveByAuthor []) log_anon
   \<and> version_of (step (RemoveByAuthor []) log_anon) = 1
   \<and> successful ClearAll log_three \<and> version_of (step ClearAll log_three) = 4
   \<and> \<not> successful ClearAll log_undone \<and> version_of (step ClearAll log_undone) = 2
   \<and> version_of (step Snapshot log_three) = 3
   \<and> successes [RemoveByAuthor ''B'', Undo, Redo, ClearAll, Snapshot] log_three = 4
   \<and> version_of (run [RemoveByAuthor ''B'', Undo, Redo, ClearAll, Snapshot] log_three) = 7"
proof -
  have a: "successful (Append (stroke_by ''A'')) log0" by (simp add: stroke_by_valid)
  have b: "\<not> successful (Append short_stroke) log0"
    by (simp add: validateOperation_iff_rules satisfies_rules_def stroke_rules_def short_stroke_def)
  have c: "\<not> successful Undo log0" by (simp add: log0_eval)
  have d: "successful Undo log_three" by (simp add: log_three_eval)
  have e: "successful Redo log_undone" by (simp add: log_undone_eval)
  have f: "\<not> successful Redo log_three" by (simp add: log_three_eval)
  have g: "successful (RemoveByAuthor ''A'') log_three"
    by (simp add: log_three_eval userId_stroke_by)
  have h: "\<not> successful (RemoveByAuthor ''C'') log_three"
    by (simp add: log_three_eval userId_stroke_by)
  have i: "\<not> successful (RemoveByAuthor []) log_anon" by simp
  have j: "successful ClearAll log_three" by (simp add: log_three_eval)
  have k: "\<not> successful ClearAll log_undone" by (simp add: log_undone_eval)
  have l: "\<not> successful Snapshot log_three" by simp
  have n: "successes [RemoveByAuthor ''B'', Undo, Redo, ClearAll, Snapshot] log_three = 4"
    by (simp add: log_three_def log0_eq stroke_by_valid userId_stroke_by ops_of_def redo_of_def
        push_def pop_def truncate0_def new_array_def Let_def)
  from version_counter[OF wf_log0, of "Append (stroke_by ''A'')" "[]"]
    version_counter[OF wf_log0, of "Append short_stroke" "[]"]
    version_counter[OF wf_log0, of Undo "[]"]
    version_counter[OF wf_log_three, of Undo "[]"]
    version_counter[OF wf_log_undone, of Redo "[]"]
    version_counter[OF wf_log_three, of Redo "[]"]
    version_counter[OF wf_log_three, of "RemoveByAuthor ''A''" "[]"]
    version_counter[OF wf_log_three, of "RemoveByAuthor ''C''" "[]"]
    version_counter[OF wf_log_anon, of "RemoveByAuthor []" "[]"]
    version_counter[OF wf_log_three, of ClearAll "[]"]
    version_counter[OF wf_log_undone, of ClearAll "[]"]
    version_counter[OF wf_log_three, of Snapshot
      "[RemoveByAuthor ''B'', Undo, Redo, ClearAll, Snapshot]"]
    a b c d e f g h i j k l n wf_log0 wf_log_undone wf_log_three wf_log_anon
  show ?thesis
    by (simp add: log0_eval log_undone_eval log_three_eval log_anon_eval
        del: step.simps run.simps successes.simps successful.simps)
qed

section \<open>The room registry\<close>

text \<open>
  Claim C9. \<open>ensureRoom\<close> creates a room with a new, empty log (no operations, nothing
  to redo, version 0) and no users exactly when the registry has no room for the id, leaving
  every other room as it was; with the room present it changes nothing, so a second
  \<open>ensureRoom\<close> for the same id is the identity. \<open>getState\<close> and \<open>getUsers\<close> leave the
  registry as \<open>ensureRoom\<close> does, and for an id never referenced before they return, without
  failing, an empty log at version 0 and an empty list of users.
\<close>

theorem ensureRoom_contract:
  "(rooms (snd w) roomId = None \<longrightarrow>
      (\<exists>r st. rooms (snd (ensureRoom roomId w)) roomId = Some \<lparr>state = r, users = []\<rparr>
            \<and> states (fst (ensureRoom roomId w)) r = Some st
            \<and> ops_of (arrays (fst (ensureRoom roomId w)), st) = []
            \<and> redo_of (arrays (fst (ensureRoom roomId w)), st) = []
            \<and> version st = 0)
      \<and> (\<forall>k. k \<noteq> roomId \<longrightarrow> rooms (snd (ensureRoom roomId w)) k = rooms (snd w) k))
   \<and> (rooms (snd w) roomId \<noteq> None \<longrightarrow> ensureRoom roomId w = w)
   \<and> ensureRoom roomId (ensureRoom roomId w) = ensureRoom roomId w
   \<and> snd (getState roomId w) = ensureRoom roomId w
   \<and> snd (getUsers roomId w) = ensureRoom roomId w
   \<and> (rooms (snd w) roomId = None \<longrightarrow>
        (\<exists>r st. fst (getState roomId w) = Inr r
              \<and> states (fst (snd (getState roomId w))) r = Some st
              \<and> version st = 0
              \<and> ops_of (arrays (fst (snd (getState roomId w))), st) = [])
        \<and> fst (getUsers roomId w) = Inr [])"
proof -
  obtain m this where w: "w = (m, this)" by (cases w)
  have idem: "ensureRoom roomId (ensureRoom roomId w) = ensureRoom roomId w"
    by (rule ensureRoom_idem)
  have present: "rooms (snd w) roomId \<noteq> None \<longrightarrow> ensureRoom roomId w = w"
    by (auto simp: w)
  have acc1: "snd (getState roomId w) = ensureRoom roomId w"
    by (simp add: Let_def split: prod.splits option.splits)
  have acc2: "snd (getUsers roomId w) = ensureRoom roomId w"
    by (simp add: Let_def split: prod.splits option.splits)
  have absent: "rooms (snd w) roomId = None \<longrightarrow>
      (\<exists>r st. rooms (snd (ensureRoom roomId w)) roomId = Some \<lparr>state = r, users = []\<rparr>
            \<and> states (fst (ensureRoom roomId w)) r = Some st
            \<and> ops_of (arrays (fst (ensureRoom roomId w)), st) = []
            \<and> redo_of (arrays (fst (ensureRoom roomId w)), st) = []
            \<and> version st = 0)
      \<and> (\<forall>k. k \<noteq> roomId \<longrightarrow> rooms (snd (ensureRoom roomId w)) k = rooms (snd w) k)"
    by (simp add: w ensureRoom_absent ops_of_def redo_of_def del: ensureRoom.simps)
  have fresh: "rooms (snd w) roomId = None \<longrightarrow>
        (\<exists>r st. fst (getState roomId w) = Inr r
              \<and> states (fst (snd (getState roomId w))) r = Some st
              \<and> version st = 0
              \<and> ops_of (arrays (fst (snd (getState roomId w))), st) = [])
        \<and> fst (getUsers roomId w) = Inr []"
    by (simp add: w ensureRoom_absent ops_of_def Let_def del: ensureRoom.simps)
  from absent present idem acc1 acc2 fresh show ?thesis by blast
qed

theorem ensureRoom_contract_witness:
  "rooms (snd registry0) ''lobby'' = None
   \<and> rooms (snd registry1) ''lobby'' \<noteq> None
   \<and> ensureRoom ''lobby'' registry1 = registry1
   \<and> ensureRoom ''lobby'' (ensureRoom ''lobby'' registry0) = ensureRoom ''lobby'' registry0
   \<and> fst (getState ''lobby'' registry0) = Inr 0
   \<and> states (fst (snd (getState ''lobby'' registry0))) 0
       = Some \<lparr>operations = 0, redoStack = 1, version = 0\<rparr>
   \<and> fst (getUsers ''lobby'' registry0) = Inr []"
proof -
  have a: "rooms (snd registry0) ''lobby'' = None"
    by (simp add: registry0_def new_RoomManager_def)
  have b: "rooms (snd registry1) ''lobby'' \<noteq> None"
    unfolding registry1_def by (rule ensureRoom_has)
  have c: "fst (getState ''lobby'' registry0) = Inr 0
     \<and> states (fst (snd (getState ''lobby'' registry0))) 0
         = Some \<lparr>operations = 0, redoStack = 1, version = 0\<rparr>"
    by (simp add: registry0_def memory0_def new_RoomManager_def heap0_def new_DrawingState_def
        new_array_def)
  from ensureRoom_contract[of registry0 "''lobby''"] ensureRoom_contract[of registry1 "''lobby''"] a b c
  show ?thesis by simp
qed

section \<open>Shape updates\<close>

text \<open>
  Claim C10. Validation of a \<^verbatim>\<open>shape:update\<close> never consults the log. On every well-formed
  log, the empty one included, a candidate of type \<^verbatim>\<open>shape:update\<close> whose \<open>targetId\<close> is
  any non-empty string and which carries a numeric \<open>x\<close>, \<open>y\<close> pair, a positive \<open>width\<close>
  and \<open>height\<close> pair or a string \<open>color\<close> is appended, whether or not an entry of the log
  has that id.
\<close>

theorem shape_update_no_referential_check:
  assumes "wf_log w" and "get_prop op ''type'' = JStr ''shape:update''"
    and "get_prop op ''targetId'' = JStr t" and "t \<noteq> []" and "update_field op"
  shows "fst (addOperation op w) = Inr ()
       \<and> ops_of (snd (addOperation op w)) = ops_of w @ [op]
       \<and> version_of (snd (addOperation op w)) = version_of w + 1"
proof -
  obtain h this where w: "w = (h, this)" by (cases w)
  from assms(2-5) have "satisfies_rules op"
    by (simp add: satisfies_rules_def shape_update_rules_def)
  then have ok: "validateOperation op = Inr ()"
    by (simp add: validateOperation_iff_rules)
  from assms(1) w have neq: "operations this \<noteq> redoStack this"
    by (simp add: wf_log_def)
  show ?thesis using ok neq
    by (simp add: w ops_of_def version_of_def push_def truncate0_def)
qed

theorem shape_update_no_referential_check_witness:
  "wf_log log0 \<and> ops_of log0 = []
   \<and> get_prop recolor ''type'' = JStr ''shape:update''
   \<and> get_prop recolor ''targetId'' = JStr ''s9'' \<and> ''s9'' \<noteq> [] \<and> update_field recolor
   \<and> fst (addOperation recolor log0) = Inr ()
   \<and> ops_of (snd (addOperation recolor log0)) = [recolor]
   \<and> version_of (snd (addOperation recolor log0)) = 1"
proof -
  have a: "get_prop recolor ''type'' = JStr ''shape:update''" by (simp add: recolor_def)
  have b: "get_prop recolor ''targetId'' = JStr ''s9''" by (simp add: recolor_def)
  have c: "''s9'' \<noteq> []" by simp
  have d: "update_field recolor" by (simp add: update_field_def recolor_def)
  from shape_update_no_referential_check[OF wf_log0 a b c d] wf_log0 a b c d
  show ?thesis by (simp add: log0_eval)
qed

end
